theory Spec2Isabelle
  imports Main
begin

section \<open>Strings and bytes\<close>

text \<open>
  Python \<^verbatim>\<open>str\<close> and \<^verbatim>\<open>bytes\<close> values are lists of characters. The protocol text
  is ASCII, where \<^verbatim>\<open>encode('utf-8')\<close> changes nothing.
\<close>

type_synonym bytes = string

definition startswith :: "string \<Rightarrow> string \<Rightarrow> bool" where
  "startswith s p = (take (length p) s = p)"

definition endswith :: "string \<Rightarrow> string \<Rightarrow> bool" where
  "endswith s p = (length p \<le> length s \<and> drop (length s - length p) s = p)"

section \<open>PyHSS URL formatting\<close>

text \<open>
  \<^verbatim>\<open>format_pyhss_url\<close> (source lines 74-81): prefix the scheme unless the
  argument starts with it, then append the port.
\<close>

definition format_pyhss_url :: "string \<Rightarrow> string" where
  "format_pyhss_url api_base_url =
     (let api_base_url' =
        (if \<not> startswith api_base_url ''http://'' then ''http://'' @ api_base_url
         else api_base_url)
      in api_base_url' @ '':8080'')"

section \<open>Exceptions and the results of helper calls\<close>

datatype error =
    SocketError          \<comment> \<open>\<^verbatim>\<open>socket.error\<close>, raised by a call on the socket\<close>
  | AttributeError       \<comment> \<open>a method looked up on \<^verbatim>\<open>None\<close>\<close>
  | UnicodeDecodeError   \<comment> \<open>\<^verbatim>\<open>decode("utf-8")\<close> on bytes that are not UTF-8\<close>
  | CtrlError            \<comment> \<open>any exception raised inside a helper inherited from \<^verbatim>\<open>Ctrl\<close>\<close>

text \<open>A helper call either raises or returns a value.\<close>

datatype 'a res = Raise | Ret 'a

section \<open>The transport: a TCP stream socket\<close>

text \<open>
  The socket as the program sees it. \<open>inq\<close> holds the byte chunks that arrive, in the
  order in which successive \<^verbatim>\<open>recv\<close> calls get them; an empty chunk is a moment
  at which nothing has arrived yet. \<open>peer\<close> says what happens once the chunks are used
  up. \<open>wr\<close> gives, for each coming \<^verbatim>\<open>send\<close> call, the most bytes the kernel takes
  in that call (no entry: all of them); \<open>sent\<close> collects the bytes handed to the kernel.
\<close>

datatype peer = PeerOpen | PeerClosed | PeerFailed

datatype mode = Blocking | MSG_DONTWAIT

record socket =
  inq :: "bytes list"
  peer :: peer
  wr :: "nat list"
  sent :: bytes
  closed :: bool

text \<open>
  \<^verbatim>\<open>sock.recv(bufsize, flags)\<close>. A blocking read waits until bytes arrive; the result
  \<open>None\<close> is a call that never returns, when nothing more arrives and the peer is
  still there. A read under \<^verbatim>\<open>MSG_DONTWAIT\<close> at a moment with nothing queued raises
  \<^verbatim>\<open>socket.error\<close>, as do a failed connection and a closed socket. At end of stream
  the call returns no bytes.
\<close>

definition recv :: "nat \<Rightarrow> mode \<Rightarrow> socket \<Rightarrow> ((error + bytes) \<times> socket) option" where
  "recv bufsize fl s =
     (if closed s then Some (Inl SocketError, s)
      else case (if fl = Blocking then dropWhile (\<lambda>d. d = []) (inq s) else inq s) of
        d # ds \<Rightarrow>
          (if d = [] then Some (Inl SocketError, s\<lparr>inq := ds\<rparr>)
           else Some (Inr (take bufsize d),
                      s\<lparr>inq := (if length d \<le> bufsize then ds else drop bufsize d # ds)\<rparr>))
      | [] \<Rightarrow>
          (case peer s of
             PeerClosed \<Rightarrow> Some (Inr [], s\<lparr>inq := []\<rparr>)
           | PeerFailed \<Rightarrow> Some (Inl SocketError, s\<lparr>inq := []\<rparr>)
           | PeerOpen \<Rightarrow>
               (if fl = MSG_DONTWAIT then Some (Inl SocketError, s\<lparr>inq := []\<rparr>) else None)))"

text \<open>
  \<^verbatim>\<open>sock.send(data)\<close> hands over as many bytes as the kernel takes in this call and
  returns their number.
\<close>

definition send :: "bytes \<Rightarrow> socket \<Rightarrow> (error + nat) \<times> socket" where
  "send c s =
     (if closed s \<or> peer s = PeerFailed then (Inl SocketError, s)
      else case wr s of
        [] \<Rightarrow> (Inr (length c), s\<lparr>sent := sent s @ c\<rparr>)
      | k # ks \<Rightarrow> (Inr (min k (length c)), s\<lparr>wr := ks, sent := sent s @ take k c\<rparr>))"

text \<open>\<^verbatim>\<open>sock.close()\<close> marks the socket closed; on a closed socket it changes nothing.\<close>

definition sock_close :: "socket \<Rightarrow> socket" where
  "sock_close s = s\<lparr>closed := True\<rparr>"

text \<open>A socket that was created and never connected: every transfer on it fails.\<close>

definition unconnected :: socket where
  "unconnected = \<lparr>inq = [], peer = PeerFailed, wr = [], sent = [], closed = False\<rparr>"

section \<open>The helpers inherited from \<^verbatim>\<open>osmopy.osmo_ipa.Ctrl\<close>\<close>

text \<open>
  \<^verbatim>\<open>OsmoCtrlClient\<close> inherits \<^verbatim>\<open>cmd\<close>, \<^verbatim>\<open>skip_traps\<close>, \<^verbatim>\<open>parse\<close>,
  \<^verbatim>\<open>verify\<close>, \<^verbatim>\<open>rem_header\<close> and \<^verbatim>\<open>split_combined\<close> from a library class
  that the repository imports (source line 8) and does not contain. They are parameters
  of the model, collected in a record. \<^verbatim>\<open>cmd\<close> picks the transaction id itself; its
  first argument here stands for that choice. \<open>'t\<close> is the tuple that
  \<^verbatim>\<open>verify\<close> returns. A Python \<^verbatim>\<open>None\<close> result is \<open>None\<close>.
\<close>

record 't ctrl =
  cmd :: "nat \<Rightarrow> string \<Rightarrow> string option \<Rightarrow> (nat \<times> bytes) res"
  skip_traps :: "bytes \<Rightarrow> bytes option res"
  parse :: "bytes \<Rightarrow> (string option \<times> string option \<times> string option) res"
  verify :: "bytes \<Rightarrow> nat \<Rightarrow> string \<Rightarrow> string option \<Rightarrow> 't res"
  rem_header :: "bytes \<Rightarrow> bytes option res"
  split_combined :: "bytes \<Rightarrow> (bytes \<times> bytes) res"

section \<open>The client\<close>

text \<open>The lines the program prints, with the values formatted into them.\<close>

datatype 't line =
    Connected string nat
  | SendingCommand string
  | ConnectionClosed
  | GotMessage "bytes option"
  | FailedToAdd "bytes option \<times> 't"
  | AddedOk
  | FailedToSetMsisdn "bytes option \<times> 't"
  | MsisdnSetOk
  | ErrorWhileAdding error

text \<open>
  \<^verbatim>\<open>OsmoCtrlClient\<close> has one attribute, \<^verbatim>\<open>sock\<close>, which is \<^verbatim>\<open>None\<close> until
  \<^verbatim>\<open>connect\<close>. Standard output is carried along with it as \<open>out\<close>.
\<close>

record 't client =
  sock :: "socket option"
  out :: "'t line list"


text \<open>\<^verbatim>\<open>close\<close> (lines 37-40).\<close>

definition close :: "'t client \<Rightarrow> 't client" where
  "close c =
     (case sock c of
        None \<Rightarrow> c
      | Some s \<Rightarrow> c\<lparr>sock := Some (sock_close s), out := out c @ [ConnectionClosed]\<rparr>)"

text \<open>
  The loop of \<^verbatim>\<open>_leftovers\<close> (lines 52-56): peel a message off the data, print it,
  stop when nothing is left. \<open>None\<close> is a loop that never ends.
\<close>

partial_function (option) leftovers_loop ::
  "'t ctrl \<Rightarrow> bytes \<Rightarrow> 't line list \<Rightarrow> ((error + unit) \<times> 't line list) option" where
  "leftovers_loop K tail log =
     (case split_combined K tail of
        Raise \<Rightarrow> Some (Inl CtrlError, log)
      | Ret (head, tail') \<Rightarrow>
          (case rem_header K head of
             Raise \<Rightarrow> Some (Inl CtrlError, log)
           | Ret m \<Rightarrow>
               (let log' = log @ [GotMessage m]
                in if length tail' = 0 then Some (Inr (), log')
                   else leftovers_loop K tail' log')))"

declare leftovers_loop.simps [code]

text \<open>
  \<^verbatim>\<open>_leftovers\<close> (lines 42-58), called on the client's own socket. Only the
  \<^verbatim>\<open>recv\<close> call is inside the \<^verbatim>\<open>try\<close>, and only \<^verbatim>\<open>socket.error\<close> is caught.
\<close>

definition leftovers :: "'t ctrl \<Rightarrow> 't client \<Rightarrow> mode \<Rightarrow> ((error + bool) \<times> 't client) option" where
  "leftovers K c fl =
     (case sock c of
        None \<Rightarrow> Some (Inl AttributeError, c)
      | Some s \<Rightarrow>
          (case recv 1024 fl s of
             None \<Rightarrow> None
           | Some (Inl e, s') \<Rightarrow>
               (if e = SocketError then Some (Inr False, c\<lparr>sock := Some s'\<rparr>)
                else Some (Inl e, c\<lparr>sock := Some s'\<rparr>))
           | Some (Inr data, s') \<Rightarrow>
               (if length data \<noteq> 0 then
                  (case leftovers_loop K data (out c) of
                     None \<Rightarrow> None
                   | Some (Inl e, log) \<Rightarrow> Some (Inl e, c\<lparr>sock := Some s', out := log\<rparr>)
                   | Some (Inr u, log) \<Rightarrow> Some (Inr True, c\<lparr>sock := Some s', out := log\<rparr>))
                else Some (Inr False, c\<lparr>sock := Some s'\<rparr>))))"

text \<open>
  The receive loop of \<^verbatim>\<open>send_command\<close> (lines 28-34): read, let
  \<^verbatim>\<open>skip_traps\<close> pick a message, leave the loop when it picked one. \<open>None\<close> is a
  loop that never ends or a read that never returns.
\<close>

partial_function (option) recv_loop ::
  "'t ctrl \<Rightarrow> socket \<Rightarrow> ((error + bytes) \<times> socket) option" where
  "recv_loop K s =
     (case recv 4096 Blocking s of
        None \<Rightarrow> None
      | Some (Inl e, s') \<Rightarrow> Some (Inl e, s')
      | Some (Inr ret, s') \<Rightarrow>
          (case skip_traps K ret of
             Raise \<Rightarrow> Some (Inl CtrlError, s')
           | Ret None \<Rightarrow> recv_loop K s'
           | Ret (Some ret') \<Rightarrow>
               (case parse K ret' of
                  Raise \<Rightarrow> Some (Inl CtrlError, s')
                | Ret ikv \<Rightarrow> Some (Inr ret', s'))))"

declare recv_loop.simps [code]

text \<open>
  \<^verbatim>\<open>send_command\<close> (lines 23-35). \<open>rnd\<close> is the choice that \<^verbatim>\<open>cmd\<close> makes for
  the transaction id. The number that \<^verbatim>\<open>send\<close> returns is not looked at.
\<close>

definition send_command ::
  "'t ctrl \<Rightarrow> nat \<Rightarrow> string \<Rightarrow> string option \<Rightarrow> 't client
     \<Rightarrow> ((error + bytes option \<times> 't) \<times> 't client) option" where
  "send_command K rnd var value c =
     (let c0 = c\<lparr>out := out c @ [SendingCommand var]\<rparr> in
      case leftovers K c0 MSG_DONTWAIT of
        None \<Rightarrow> None
      | Some (Inl e, c1) \<Rightarrow> Some (Inl e, c1)
      | Some (Inr b, c1) \<Rightarrow>
          (case cmd K rnd var value of
             Raise \<Rightarrow> Some (Inl CtrlError, c1)
           | Ret (r, cm) \<Rightarrow>
               (case sock c1 of
                  None \<Rightarrow> Some (Inl AttributeError, c1)
                | Some s1 \<Rightarrow>
                    (case send cm s1 of
                       (Inl e, s2) \<Rightarrow> Some (Inl e, c1\<lparr>sock := Some s2\<rparr>)
                     | (Inr n, s2) \<Rightarrow>
                         (case recv_loop K s2 of
                            None \<Rightarrow> None
                          | Some (Inl e, s3) \<Rightarrow> Some (Inl e, c1\<lparr>sock := Some s3\<rparr>)
                          | Some (Inr ret, s3) \<Rightarrow>
                              (case rem_header K ret of
                                 Raise \<Rightarrow> Some (Inl CtrlError, c1\<lparr>sock := Some s3\<rparr>)
                               | Ret h \<Rightarrow>
                                   (case verify K ret r var value of
                                      Raise \<Rightarrow> Some (Inl CtrlError, c1\<lparr>sock := Some s3\<rparr>)
                                    | Ret t \<Rightarrow> Some (Inr (h, t), c1\<lparr>sock := Some s3\<rparr>))))))))"

section \<open>Provisioning OsmoHLR\<close>







section \<open>The codec of the specification\<close>

text \<open>
  Modelled from the spec: the length-prefixed frame of sections 3 and 6
  (\<^verbatim>\<open>encode_length_prefix\<close>); the library that implements it is not part of the
  repository. A frame is a two-byte big-endian length and that many payload bytes.
\<close>

definition be16 :: "nat \<Rightarrow> bytes" where
  "be16 n = [char_of (n div 256), char_of (n mod 256)]"

definition frame :: "bytes \<Rightarrow> bytes" where
  "frame p = be16 (length p) @ p"

text \<open>
  Modelled from the spec: \<^verbatim>\<open>extract_frame\<close> of section 4.2, absent from the
  repository. \<open>None\<close> is \<^verbatim>\<open>NeedMoreData\<close>.
\<close>

definition extract_frame :: "bytes \<Rightarrow> (bytes \<times> bytes) option" where
  "extract_frame b =
     (case b of
        h # l # rest \<Rightarrow>
          (let n = 256 * of_char h + of_char l
           in if length rest < n then None else Some (take n rest, drop n rest))
      | _ \<Rightarrow> None)"

text \<open>
  Modelled from the spec: the verbs and the message of sections 3 and 6, absent from the
  repository.
\<close>

datatype verb = GET | SET | TRAP | GET_REPLY | SET_REPLY | TRAP_REPLY | ERROR

record message =
  transaction_id :: string
  verb :: verb
  variable :: string
  val :: "string option"

fun verb_name :: "verb \<Rightarrow> string" where
  "verb_name GET = ''GET''"
| "verb_name SET = ''SET''"
| "verb_name TRAP = ''TRAP''"
| "verb_name GET_REPLY = ''GET_REPLY''"
| "verb_name SET_REPLY = ''SET_REPLY''"
| "verb_name TRAP_REPLY = ''TRAP_REPLY''"
| "verb_name ERROR = ''ERROR''"

definition verb_of :: "string \<Rightarrow> verb option" where
  "verb_of w =
     (if w = ''GET'' then Some GET else if w = ''SET'' then Some SET
      else if w = ''TRAP'' then Some TRAP else if w = ''GET_REPLY'' then Some GET_REPLY
      else if w = ''SET_REPLY'' then Some SET_REPLY
      else if w = ''TRAP_REPLY'' then Some TRAP_REPLY
      else if w = ''ERROR'' then Some ERROR else None)"

text \<open>
  Modelled from the spec: the payload text of section 6,
  \<^verbatim>\<open><transaction_id> <VERB> <variable>[ <value>]\<close>, cut at the blanks.
\<close>

fun tokens :: "string \<Rightarrow> string list" where
  "tokens [] = [[]]"
| "tokens (x # xs) =
     (if x = CHR '' '' then [] # tokens xs
      else (case tokens xs of w # ws \<Rightarrow> (x # w) # ws | [] \<Rightarrow> [[x]]))"

text \<open>
  Modelled from the spec: \<^verbatim>\<open>decode_message\<close> and \<^verbatim>\<open>is_notification\<close> of section
  4.2, absent from the repository. \<open>None\<close> is \<^verbatim>\<open>ParseError\<close>: a wrong token count or
  an unknown verb.
\<close>

definition decode_message :: "bytes \<Rightarrow> message option" where
  "decode_message p =
     (case tokens p of
        [i, w, k] \<Rightarrow>
          (case verb_of w of
             None \<Rightarrow> None
           | Some vb \<Rightarrow> Some \<lparr>transaction_id = i, verb = vb, variable = k, val = None\<rparr>)
      | [i, w, k, v] \<Rightarrow>
          (case verb_of w of
             None \<Rightarrow> None
           | Some vb \<Rightarrow> Some \<lparr>transaction_id = i, verb = vb, variable = k, val = Some v\<rparr>)
      | _ \<Rightarrow> None)"

definition is_notification :: "message \<Rightarrow> bool" where
  "is_notification m = (verb m = TRAP)"

text \<open>
  Modelled from the spec: \<^verbatim>\<open>encode_command\<close> of section 4.2, absent from the
  repository, with the transaction id written in decimal.
\<close>

fun decimal :: "nat \<Rightarrow> string" where
  "decimal n =
     (if n < 10 then [char_of (48 + n)] else decimal (n div 10) @ [char_of (48 + n mod 10)])"

declare decimal.simps [simp del]

definition encode_command :: "verb \<Rightarrow> string \<Rightarrow> string \<Rightarrow> string option \<Rightarrow> bytes" where
  "encode_command vb tx var value =
     frame (tx @ '' '' @ verb_name vb @ '' '' @ var
            @ (case value of None \<Rightarrow> [] | Some v \<Rightarrow> '' '' @ v))"

text \<open>
  Modelled from the spec: the helper \<^verbatim>\<open>cmd\<close> named in section 9, absent from the
  repository: step 2 of section 4.3, a fresh transaction id and the encoded GET (no
  value) or SET command.
\<close>

definition spec_cmd :: "nat \<Rightarrow> string \<Rightarrow> string option \<Rightarrow> (nat \<times> bytes) res" where
  "spec_cmd rnd var value =
     Ret (rnd, encode_command (if value = None then GET else SET) (decimal rnd) var value)"

text \<open>
  Modelled from the spec: the helper \<^verbatim>\<open>skip_traps\<close> named in section 9, absent from
  the repository: step 3 of section 4.3 on the bytes of one read. Frames are extracted
  one after the other; a notification and a payload that does not parse are dropped;
  the first other frame is the result; \<open>None\<close> when the bytes hold no such frame.
\<close>

function spec_skip_traps :: "bytes \<Rightarrow> bytes option" where
  "spec_skip_traps b =
     (case extract_frame b of
        None \<Rightarrow> None
      | Some (p, rest) \<Rightarrow>
          (case decode_message p of
             None \<Rightarrow> spec_skip_traps rest
           | Some m \<Rightarrow> if is_notification m then spec_skip_traps rest else Some (frame p)))"
  by pat_completeness auto
termination
  by (relation "measure length") (auto simp: extract_frame_def Let_def split: list.splits if_splits)

declare spec_skip_traps.simps [simp del]

text \<open>
  Modelled from the spec: the helper \<^verbatim>\<open>rem_header\<close> named in section 9, absent from
  the repository: the payload of a frame, without the length prefix.
\<close>

definition spec_rem_header :: "bytes \<Rightarrow> bytes option res" where
  "spec_rem_header f = Ret (Some (drop 2 f))"

text \<open>
  Modelled from the spec: \<^verbatim>\<open>split_combined\<close> of section 4.2, absent from the
  repository: the first frame of a buffer and the bytes after it. Bytes that hold no
  complete frame are returned as they are, with nothing after them, so that the drain
  loop, which ends only on an empty remainder (section 4.3, step 1), ends.
\<close>

definition spec_split_combined :: "bytes \<Rightarrow> (bytes \<times> bytes) res" where
  "spec_split_combined b =
     (case extract_frame b of
        Some (p, rest) \<Rightarrow> Ret (frame p, rest)
      | None \<Rightarrow> Ret (b, []))"

text \<open>
  Modelled from the spec: the helper \<^verbatim>\<open>parse\<close> named in section 9, absent from the
  repository: the transaction id, variable and value of a frame's message.
\<close>

definition spec_parse :: "bytes \<Rightarrow> (string option \<times> string option \<times> string option) res" where
  "spec_parse f =
     (case decode_message (drop 2 f) of
        None \<Rightarrow> Raise
      | Some m \<Rightarrow> Ret (Some (transaction_id m), Some (variable m), val m))"

text \<open>
  Modelled from the spec: the helper \<^verbatim>\<open>verify\<close> named in section 9, absent from the
  repository: the comparison of step 4 of section 4.3 (transaction id, success verb of
  the family sent, variable, and the value when one was sent). Its outcome is the pair
  that line 35 of the source appends to the payload: whether the reply matched, and the
  value of the reply.
\<close>

definition spec_verify :: "bytes \<Rightarrow> nat \<Rightarrow> string \<Rightarrow> string option \<Rightarrow> (bool \<times> string option) res" where
  "spec_verify reply r var value =
     (case decode_message (drop 2 reply) of
        None \<Rightarrow> Raise
      | Some m \<Rightarrow>
          Ret (transaction_id m = decimal r
               \<and> verb m = (if value = None then GET_REPLY else SET_REPLY)
               \<and> variable m = var
               \<and> (value = None \<or> val m = value),
               val m))"

definition spec_ctrl :: "(bool \<times> string option) ctrl" where
  "spec_ctrl =
     \<lparr>cmd = spec_cmd, skip_traps = (\<lambda>b. Ret (spec_skip_traps b)), parse = spec_parse,
      verify = spec_verify, rem_header = spec_rem_header,
      split_combined = spec_split_combined\<rparr>"

section \<open>Python's UTF-8 decoder and the pieces of a buffer\<close>





text \<open>
  What the loop of \<^verbatim>\<open>_leftovers\<close> is to print for a buffer, stated apart from the
  loop: \<^verbatim>\<open>rem_header\<close> of each piece that \<^verbatim>\<open>split_combined\<close> peels off, up to
  the piece that leaves nothing behind. \<open>n\<close> bounds the number of pieces.
\<close>

fun messages :: "'t ctrl \<Rightarrow> nat \<Rightarrow> bytes \<Rightarrow> bytes option list" where
  "messages K 0 b = []"
| "messages K (Suc n) b =
     (case split_combined K b of
        Raise \<Rightarrow> []
      | Ret (h, t) \<Rightarrow>
          (case rem_header K h of
             Raise \<Rightarrow> []
           | Ret m \<Rightarrow> m # (if t = [] then [] else messages K n t)))"

section \<open>Sessions for the examples\<close>

text \<open>
  A freshly connected socket on which nothing was sent yet: \<open>q\<close> is what will arrive,
  \<open>p\<close> what the peer does afterwards, \<open>w\<close> the limits of the coming writes. A client
  connected through it that has printed nothing.
\<close>

definition fresh_socket :: "bytes list \<Rightarrow> peer \<Rightarrow> nat list \<Rightarrow> socket" where
  "fresh_socket q p w = \<lparr>inq = q, peer = p, wr = w, sent = [], closed = False\<rparr>"

definition fresh_client :: "bytes list \<Rightarrow> peer \<Rightarrow> nat list \<Rightarrow> (bool \<times> string option) client" where
  "fresh_client q p w = \<lparr>sock = Some (fresh_socket q p w), out = []\<rparr>"

section \<open>Properties of the URL formatting\<close>

lemma endswith_iff: "endswith s p \<longleftrightarrow> (\<exists>r. s = r @ p)"
proof
  assume "endswith s p"
  then have "s = take (length s - length p) s @ p"
    by (metis append_take_drop_id endswith_def)
  then show "\<exists>r. s = r @ p" ..
next
  assume "\<exists>r. s = r @ p"
  then show "endswith s p" by (auto simp: endswith_def)
qed

lemma startswith_iff: "startswith s p \<longleftrightarrow> (\<exists>r. s = p @ r)"
proof
  assume "startswith s p"
  then have "s = p @ drop (length p) s"
    by (metis append_take_drop_id startswith_def)
  then show "\<exists>r. s = p @ r" ..
next
  assume "\<exists>r. s = p @ r"
  then show "startswith s p" by (auto simp: startswith_def)
qed

lemma https_not_http: "startswith s ''https://'' \<Longrightarrow> \<not> startswith s ''http://''"
  by (auto simp: startswith_iff)

text \<open>
  C9. For every input \<open>s\<close> the result of \<open>format_pyhss_url\<close> ends with \<open>:8080\<close>;
  \<open>http://\<close> is put in front exactly when \<open>s\<close> does not start with it; the suffix is
  appended in every case, so the function is not idempotent (an input that ends in
  \<open>:8080\<close> gives a result that ends in \<open>:8080:8080\<close>), and an input that starts
  with \<open>https://\<close> still gets the \<open>http://\<close> prefix.
\<close>

theorem format_pyhss_url_shape:
  "endswith (format_pyhss_url s) '':8080''
   \<and> (\<not> startswith s ''http://'' \<longrightarrow> format_pyhss_url s = ''http://'' @ s @ '':8080'')
   \<and> (startswith s ''http://'' \<longrightarrow> format_pyhss_url s = s @ '':8080'')
   \<and> format_pyhss_url (format_pyhss_url s) \<noteq> format_pyhss_url s
   \<and> (endswith s '':8080'' \<longrightarrow> endswith (format_pyhss_url s) '':8080:8080'')
   \<and> (startswith s ''https://'' \<longrightarrow> format_pyhss_url s = ''http://'' @ s @ '':8080'')"
proof -
  have suffix: "endswith (format_pyhss_url s) '':8080''"
    by (auto simp: format_pyhss_url_def Let_def endswith_iff)
  have "length (format_pyhss_url (format_pyhss_url s)) > length (format_pyhss_url s)" for s
    by (simp add: format_pyhss_url_def Let_def)
  then have grows: "format_pyhss_url (format_pyhss_url s) \<noteq> format_pyhss_url s"
    by (metis less_irrefl)
  have twice: "endswith (format_pyhss_url s) '':8080:8080''" if "endswith s '':8080''"
  proof -
    from that obtain r where r: "s = r @ '':8080''"
      by (auto simp: endswith_iff)
    have "format_pyhss_url s = (if startswith s ''http://'' then r else ''http://'' @ r) @ '':8080:8080''"
      by (simp add: format_pyhss_url_def Let_def r)
    then show ?thesis
      unfolding endswith_iff by blast
  qed
  show ?thesis
    using suffix grows twice https_not_http [of s]
    by (auto simp: format_pyhss_url_def Let_def)
qed

theorem format_pyhss_url_shape_witness:
  "\<not> startswith ''https://hss:8080'' ''http://''
   \<and> startswith ''https://hss:8080'' ''https://''
   \<and> endswith ''https://hss:8080'' '':8080''
   \<and> format_pyhss_url ''https://hss:8080'' = ''http://https://hss:8080:8080''
   \<and> endswith (format_pyhss_url ''https://hss:8080'') '':8080:8080''
   \<and> startswith ''http://hss'' ''http://''
   \<and> format_pyhss_url ''http://hss'' = ''http://hss:8080''"
  using format_pyhss_url_shape [of "''https://hss:8080''"]
    format_pyhss_url_shape [of "''http://hss''"]
  by (simp add: startswith_def endswith_def)

section \<open>Properties of the transport and of \<open>close\<close>\<close>

lemma recv_dontwait: "recv n MSG_DONTWAIT s \<noteq> None"
  by (simp add: recv_def split: list.splits peer.splits)


lemma sock_close_client: "sock (close c) = map_option sock_close (sock c)"
  by (simp add: close_def split: option.splits)

lemma close_sock_twice: "sock (close (close c)) = sock (close c)"
  by (cases "sock c") (simp_all add: sock_close_client sock_close_def)

lemma close_funpow: "0 < n \<Longrightarrow> sock ((close ^^ n) c) = sock (close c)"
proof (induction n)
  case 0
  then show ?case by simp
next
  case (Suc n)
  show ?case
  proof (cases "n = 0")
    case True
    then show ?thesis by simp
  next
    case False
    with Suc have "sock ((close ^^ n) c) = sock (close c)" by simp
    then have "sock (close ((close ^^ n) c)) = sock (close (close c))"
      by (simp add: sock_close_client)
    then show ?thesis by (simp add: close_sock_twice)
  qed
qed

lemma close_connected:
  "sock x = Some s \<Longrightarrow>
     sock (close x) = Some (sock_close s) \<and> out (close x) = out x @ [ConnectionClosed]"
  by (simp add: close_def)

lemma close_prints:
  "sock c = Some s \<Longrightarrow>
     (\<exists>s'. sock ((close ^^ n) c) = Some s')
     \<and> out ((close ^^ n) c) = out c @ replicate n ConnectionClosed"
proof (induction n)
  case 0
  then show ?case by simp
next
  case (Suc n)
  then obtain s' where s': "sock ((close ^^ n) c) = Some s'"
    and o: "out ((close ^^ n) c) = out c @ replicate n ConnectionClosed"
    by blast
  have r: "replicate n ConnectionClosed @ [ConnectionClosed] = replicate (Suc n) ConnectionClosed"
    by (simp add: replicate_append_same)
  have "(close ^^ Suc n) c = close ((close ^^ n) c)" by simp
  then show ?case
    using close_connected [OF s'] o r by simp
qed

text \<open>
  C7. \<open>close\<close> is idempotent. For every client state, connected or not, whatever the
  state of its socket, \<open>close\<close> returns (the model has no failing branch, as the source
  has none); before a connection it changes nothing; on a connected client it leaves
  the socket closed; and any number of calls leaves the client's socket in the state that
  one call leaves it in. (On a connected client every call prints its line again, see
  \<open>close_prints\<close>; the session itself is not changed by a second call.)
\<close>

theorem close_idempotent:
  "sock (close (close c)) = sock (close c)
   \<and> (sock c = None \<longrightarrow> close c = c)
   \<and> (\<forall>s. sock c = Some s \<longrightarrow> sock (close c) = Some (s\<lparr>closed := True\<rparr>))
   \<and> (\<forall>n. 0 < n \<longrightarrow> sock ((close ^^ n) c) = sock (close c))"
  using close_sock_twice [of c] close_funpow [of _ c]
  by (auto simp: close_def sock_close_def)

theorem close_idempotent_witness:
  "sock \<lparr>sock = Some unconnected, out = ([] :: unit line list)\<rparr> = Some unconnected
   \<and> sock (close \<lparr>sock = Some unconnected, out = ([] :: unit line list)\<rparr>)
       = Some (unconnected\<lparr>closed := True\<rparr>)
   \<and> (0::nat) < 3
   \<and> sock ((close ^^ 3) \<lparr>sock = Some unconnected, out = ([] :: unit line list)\<rparr>)
       = Some (unconnected\<lparr>closed := True\<rparr>)
   \<and> sock \<lparr>sock = None, out = ([] :: unit line list)\<rparr> = None
   \<and> close \<lparr>sock = None, out = ([] :: unit line list)\<rparr> = \<lparr>sock = None, out = []\<rparr>"
  using close_idempotent [of "\<lparr>sock = Some unconnected, out = ([] :: unit line list)\<rparr>"]
    close_idempotent [of "\<lparr>sock = None, out = ([] :: unit line list)\<rparr>"]
  by simp

section \<open>The receive loop and the drain\<close>

lemma recv_chunk:
  "\<not> closed s \<Longrightarrow> inq s = d # q \<Longrightarrow> d \<noteq> [] \<Longrightarrow> length d \<le> n
     \<Longrightarrow> recv n fl s = Some (Inr d, s\<lparr>inq := q\<rparr>)"
  by (cases fl) (simp_all add: recv_def)

lemma recv_gap_blocking:
  "\<not> closed s \<Longrightarrow> inq s = [] # q
     \<Longrightarrow> recv n Blocking s = recv n Blocking (s\<lparr>inq := q\<rparr>)"
  by (cases "dropWhile (\<lambda>d. d = []) q")
    (simp_all add: recv_def del: dropWhile_eq_Nil_conv split: peer.splits)

lemma recv_gap_dontwait:
  "\<not> closed s \<Longrightarrow> inq s = [] # q
     \<Longrightarrow> recv n MSG_DONTWAIT s = Some (Inl SocketError, s\<lparr>inq := q\<rparr>)"
  by (simp add: recv_def)

lemma recv_eof:
  "\<not> closed s \<Longrightarrow> \<forall>d\<in>set (inq s). d = [] \<Longrightarrow> peer s = PeerClosed
     \<Longrightarrow> recv n Blocking s = Some (Inr [], s\<lparr>inq := []\<rparr>)"
proof -
  assume a: "\<not> closed s" "\<forall>d\<in>set (inq s). d = []" "peer s = PeerClosed"
  then have dw: "dropWhile (\<lambda>d. d = []) (inq s) = []"
    by (simp add: dropWhile_eq_Nil_conv)
  show ?thesis using a by (simp add: recv_def dw del: dropWhile_eq_Nil_conv)
qed

lemma recv_loop_blocks: "recv 4096 Blocking s = None \<Longrightarrow> recv_loop K s = None"
  by (subst recv_loop.simps) simp

lemma recv_loop_error:
  "recv 4096 Blocking s = Some (Inl e, s') \<Longrightarrow> recv_loop K s = Some (Inl e, s')"
  by (subst recv_loop.simps) simp

lemma recv_loop_skip:
  "recv 4096 Blocking s = Some (Inr d, s') \<Longrightarrow> skip_traps K d = Ret None
     \<Longrightarrow> recv_loop K s = recv_loop K s'"
  by (subst recv_loop.simps) simp

lemma recv_loop_pick:
  "recv 4096 Blocking s = Some (Inr d, s') \<Longrightarrow> skip_traps K d = Ret (Some m)
     \<Longrightarrow> parse K m = Ret x \<Longrightarrow> recv_loop K s = Some (Inr m, s')"
  by (subst recv_loop.simps) simp

lemma recv_loop_gap:
  "\<not> closed s \<Longrightarrow> inq s = [] # q \<Longrightarrow> recv_loop K s = recv_loop K (s\<lparr>inq := q\<rparr>)"
  by (subst recv_loop.simps, subst (2) recv_loop.simps) (simp add: recv_gap_blocking)

lemma recv_loop_some_not_eof:
  "recv_loop K s = Some y \<Longrightarrow>
     \<not> (skip_traps K [] = Ret None \<and> \<not> closed s \<and> (\<forall>d\<in>set (inq s). d = [])
        \<and> peer s = PeerClosed)"
proof (rule recv_loop.raw_induct
    [where P = "\<lambda>K s y. \<not> (skip_traps K [] = Ret None \<and> \<not> closed s
        \<and> (\<forall>d\<in>set (inq s). d = []) \<and> peer s = PeerClosed)"])
  fix f :: "'a ctrl \<Rightarrow> socket \<Rightarrow> ((error + bytes) \<times> socket) option"
    and K s y
  assume IH: "\<And>K s y. f K s = Some y \<Longrightarrow>
      \<not> (skip_traps K [] = Ret None \<and> \<not> closed s \<and> (\<forall>d\<in>set (inq s). d = [])
         \<and> peer s = PeerClosed)"
    and body: "(case recv 4096 Blocking s of
        None \<Rightarrow> None
      | Some (Inl e, s') \<Rightarrow> Some (Inl e, s')
      | Some (Inr ret, s') \<Rightarrow>
          (case skip_traps K ret of
             Raise \<Rightarrow> Some (Inl CtrlError, s')
           | Ret None \<Rightarrow> f K s'
           | Ret (Some ret') \<Rightarrow>
               (case parse K ret' of
                  Raise \<Rightarrow> Some (Inl CtrlError, s')
                | Ret ikv \<Rightarrow> Some (Inr ret', s')))) = Some y"
  show "\<not> (skip_traps K [] = Ret None \<and> \<not> closed s \<and> (\<forall>d\<in>set (inq s). d = [])
        \<and> peer s = PeerClosed)"
  proof
    assume c: "skip_traps K [] = Ret None \<and> \<not> closed s \<and> (\<forall>d\<in>set (inq s). d = [])
        \<and> peer s = PeerClosed"
    then have "recv 4096 Blocking s = Some (Inr [], s\<lparr>inq := []\<rparr>)"
      by (simp add: recv_eof)
    with body c have "f K (s\<lparr>inq := []\<rparr>) = Some y" by simp
    from IH [OF this] c show False by simp
  qed
qed

lemma recv_loop_eof:
  "skip_traps K [] = Ret None \<Longrightarrow> \<not> closed s \<Longrightarrow> \<forall>d\<in>set (inq s). d = []
     \<Longrightarrow> peer s = PeerClosed \<Longrightarrow> recv_loop K s = None"
  using recv_loop_some_not_eof [of K s] by (cases "recv_loop K s") auto

lemma recv_loop_run:
  "\<not> closed s \<Longrightarrow> inq s = ds @ d # q
    \<Longrightarrow> \<forall>x\<in>set ds. x = [] \<or> (length x \<le> 4096 \<and> skip_traps K x = Ret None)
    \<Longrightarrow> d \<noteq> [] \<Longrightarrow> length d \<le> 4096 \<Longrightarrow> skip_traps K d = Ret (Some m)
    \<Longrightarrow> parse K m = Ret x
    \<Longrightarrow> recv_loop K s = Some (Inr m, s\<lparr>inq := q\<rparr>)"
proof (induction ds arbitrary: s)
  case Nil
  then have "recv 4096 Blocking s = Some (Inr d, s\<lparr>inq := q\<rparr>)"
    by (simp add: recv_chunk)
  then show ?case using Nil by (simp add: recv_loop_pick)
next
  case (Cons a ds)
  let ?s = "s\<lparr>inq := ds @ d # q\<rparr>"
  have next_run: "recv_loop K ?s = Some (Inr m, ?s\<lparr>inq := q\<rparr>)"
    using Cons.prems by (intro Cons.IH) simp_all
  have "recv_loop K s = recv_loop K ?s"
  proof (cases "a = []")
    case True
    then show ?thesis using Cons.prems(1,2) by (simp add: recv_loop_gap)
  next
    case False
    with Cons.prems have "recv 4096 Blocking s = Some (Inr a, ?s)" "skip_traps K a = Ret None"
      by (simp_all add: recv_chunk)
    then show ?thesis by (rule recv_loop_skip)
  qed
  with next_run show ?case by simp
qed


section \<open>Facts about the codec of the specification\<close>

lemma extract_frame_frame:
  "length p < 65536 \<Longrightarrow> extract_frame (frame p @ rest) = Some (p, rest)"
proof -
  assume h: "length p < 65536"
  have "length p div 256 mod 256 = length p div 256"
    using h by simp
  moreover have "256 * (length p div 256) + length p mod 256 = length p"
    by simp
  ultimately show ?thesis
    by (simp add: extract_frame_def frame_def be16_def Let_def)
qed

lemma spec_skip_traps_empty: "spec_skip_traps [] = None"
  by (simp add: spec_skip_traps.simps extract_frame_def)

lemma spec_skip_traps_reply:
  "length p < 65536 \<Longrightarrow> decode_message p = Some m \<Longrightarrow> \<not> is_notification m
    \<Longrightarrow> spec_skip_traps (frame p @ rest) = Some (frame p)"
  by (subst spec_skip_traps.simps) (simp add: extract_frame_frame)

lemma spec_skip_traps_trap:
  "length p < 65536 \<Longrightarrow> decode_message p = Some m \<Longrightarrow> is_notification m
    \<Longrightarrow> spec_skip_traps (frame p @ rest) = spec_skip_traps rest"
  by (subst spec_skip_traps.simps) (simp add: extract_frame_frame)

lemma spec_split_combined_frame:
  "length p < 65536 \<Longrightarrow> spec_split_combined (frame p @ rest) = Ret (frame p, rest)"
  by (simp add: spec_split_combined_def extract_frame_frame)

lemma drop2_frame: "drop 2 (frame p) = p"
  by (simp add: frame_def be16_def)

lemma frame_nonempty: "frame p \<noteq> []"
  by (simp add: frame_def be16_def)

lemma length_frame: "length (frame p) = 2 + length p"
  by (simp add: frame_def be16_def)

lemma decimal_42: "decimal 42 = ''42''"
  by code_simp

lemmas spec_ctrl_simps =
  spec_ctrl_def spec_cmd_def spec_parse_def spec_verify_def spec_rem_header_def
  encode_command_def decode_message_def verb_of_def is_notification_def
  drop2_frame frame_nonempty length_frame decimal_42

section \<open>The drain\<close>



lemma leftovers_on_error:
  "sock c = Some s \<Longrightarrow> recv 1024 fl s = Some (Inl SocketError, s')
     \<Longrightarrow> leftovers K c fl = Some (Inr False, c\<lparr>sock := Some s'\<rparr>)"
  by (simp add: leftovers_def)

lemma leftovers_on_empty:
  "sock c = Some s \<Longrightarrow> recv 1024 fl s = Some (Inr [], s')
     \<Longrightarrow> leftovers K c fl = Some (Inr False, c\<lparr>sock := Some s'\<rparr>)"
  by (simp add: leftovers_def)

lemma leftovers_on_data:
  "sock c = Some s \<Longrightarrow> recv 1024 fl s = Some (Inr data, s') \<Longrightarrow> data \<noteq> []
     \<Longrightarrow> leftovers K c fl =
          (case leftovers_loop K data (out c) of
             None \<Rightarrow> None
           | Some (Inl e, log) \<Rightarrow> Some (Inl e, c\<lparr>sock := Some s', out := log\<rparr>)
           | Some (Inr u, log) \<Rightarrow> Some (Inr True, c\<lparr>sock := Some s', out := log\<rparr>))"
  by (simp add: leftovers_def)



section \<open>Runs of \<open>send_command\<close> with the codec of the specification\<close>

lemma sk_partial_head: "spec_skip_traps (take 5 (frame ''42 SET_REPLY x 5'')) = None"
  by (simp add: spec_skip_traps.simps extract_frame_def frame_def be16_def)

lemma sk_partial_tail: "spec_skip_traps (drop 5 (frame ''42 SET_REPLY x 5'')) = None"
  by (simp add: spec_skip_traps.simps extract_frame_def frame_def be16_def)

lemma sk_trap: "spec_skip_traps (frame ''0 TRAP a b'') = None"
  using spec_skip_traps_trap [of "''0 TRAP a b''" _ "[]"]
  by (simp add: decode_message_def verb_of_def is_notification_def spec_skip_traps_empty)

lemma sk_reply_7: "spec_skip_traps (frame ''7 SET_REPLY x 5'') = Some (frame ''7 SET_REPLY x 5'')"
  using spec_skip_traps_reply [of "''7 SET_REPLY x 5''" _ "[]"]
  by (simp add: decode_message_def verb_of_def is_notification_def)

lemma sk_reply_42_5: "spec_skip_traps (frame ''42 SET_REPLY x 5'') = Some (frame ''42 SET_REPLY x 5'')"
  using spec_skip_traps_reply [of "''42 SET_REPLY x 5''" _ "[]"]
  by (simp add: decode_message_def verb_of_def is_notification_def)

lemma sk_reply_42_6: "spec_skip_traps (frame ''42 SET_REPLY x 6'') = Some (frame ''42 SET_REPLY x 6'')"
  using spec_skip_traps_reply [of "''42 SET_REPLY x 6''" _ "[]"]
  by (simp add: decode_message_def verb_of_def is_notification_def)

lemmas run_simps =
  fresh_client_def fresh_socket_def send_command_def leftovers_def recv_def send_def
  recv_loop.simps leftovers_loop.simps spec_ctrl_simps

text \<open>
  C1 as stated does not hold. The command is sent with transaction id 42 and the only
  frame that arrives is a reply with id 7: the receive loop ends on it and
  \<open>send_command\<close> returns it as the reply.
\<close>

theorem send_command_other_id_counterexample:
  "send_command spec_ctrl 42 ''x'' (Some ''5'')
     (fresh_client [[], frame ''7 SET_REPLY x 5''] PeerOpen [])
   = Some (Inr (Some ''7 SET_REPLY x 5'', False, Some ''5''),
           \<lparr>sock = Some \<lparr>inq = [], peer = PeerOpen, wr = [],
                          sent = frame ''42 SET x 5'', closed = False\<rparr>,
            out = [SendingCommand ''x'']\<rparr>)"
  by (simp add: run_simps sk_reply_7)

text \<open>
  C2 as stated does not hold. For the command \<open>(42, SET, x, 5)\<close> and the reply
  \<open>(42, SET_REPLY, x, 6)\<close> the call returns normally: the payload, and the verdict
  \<open>False\<close> with the value \<open>6\<close>.
\<close>

theorem send_command_mismatch_counterexample:
  "send_command spec_ctrl 42 ''x'' (Some ''5'')
     (fresh_client [[], frame ''42 SET_REPLY x 6''] PeerOpen [])
   = Some (Inr (Some ''42 SET_REPLY x 6'', False, Some ''6''),
           \<lparr>sock = Some \<lparr>inq = [], peer = PeerOpen, wr = [],
                          sent = frame ''42 SET x 5'', closed = False\<rparr>,
            out = [SendingCommand ''x'']\<rparr>)"
  by (simp add: run_simps sk_reply_42_6)

text \<open>
  C3, at the failing input. The peer closes the connection before it replies: every
  read in the loop returns no bytes, \<open>skip_traps\<close> finds no message in them, and the
  loop goes on for ever. The call does not fail with an error; it never returns.
\<close>

theorem send_command_never_returns_at_eof:
  "send_command spec_ctrl 42 ''x'' (Some ''5'') (fresh_client [[]] PeerClosed []) = None"
proof -
  have "recv_loop spec_ctrl
          \<lparr>inq = [], peer = PeerClosed, wr = [], sent = frame ''42 SET x 5'', closed = False\<rparr>
        = None"
    by (rule recv_loop_eof) (simp_all add: spec_ctrl_def spec_skip_traps_empty)
  then show ?thesis
    by (simp add: fresh_client_def fresh_socket_def send_command_def leftovers_def recv_def
        send_def spec_ctrl_simps)
qed

text \<open>
  C4 as stated does not hold. The reply frame in one read is decoded; the same frame
  split after its fifth byte over two reads is never put together, and the call waits
  for ever for a message.
\<close>

theorem send_command_split_reply_counterexample:
  "send_command spec_ctrl 42 ''x'' (Some ''5'')
     (fresh_client [[], frame ''42 SET_REPLY x 5''] PeerOpen [])
   = Some (Inr (Some ''42 SET_REPLY x 5'', True, Some ''5''),
           \<lparr>sock = Some \<lparr>inq = [], peer = PeerOpen, wr = [],
                          sent = frame ''42 SET x 5'', closed = False\<rparr>,
            out = [SendingCommand ''x'']\<rparr>)
   \<and> send_command spec_ctrl 42 ''x'' (Some ''5'')
     (fresh_client [[], take 5 (frame ''42 SET_REPLY x 5''), drop 5 (frame ''42 SET_REPLY x 5'')]
        PeerOpen [])
   = None"
proof
  show "send_command spec_ctrl 42 ''x'' (Some ''5'')
     (fresh_client [[], frame ''42 SET_REPLY x 5''] PeerOpen [])
   = Some (Inr (Some ''42 SET_REPLY x 5'', True, Some ''5''),
           \<lparr>sock = Some \<lparr>inq = [], peer = PeerOpen, wr = [],
                          sent = frame ''42 SET x 5'', closed = False\<rparr>,
            out = [SendingCommand ''x'']\<rparr>)"
    by (simp add: run_simps sk_reply_42_5)
  have h: "take 5 (frame ''42 SET_REPLY x 5'') \<noteq> []" "drop 5 (frame ''42 SET_REPLY x 5'') \<noteq> []"
    by (simp_all add: frame_def be16_def)
  show "send_command spec_ctrl 42 ''x'' (Some ''5'')
     (fresh_client [[], take 5 (frame ''42 SET_REPLY x 5''), drop 5 (frame ''42 SET_REPLY x 5'')]
        PeerOpen [])
   = None"
    by (simp add: run_simps sk_partial_head sk_partial_tail h)
qed

lemma split_trap_then_partial:
  "spec_split_combined (frame ''0 TRAP a b'' @ take 5 (frame ''42 SET_REPLY x 5''))
     = Ret (frame ''0 TRAP a b'', take 5 (frame ''42 SET_REPLY x 5''))"
  by (simp add: spec_split_combined_frame)

lemma split_partial:
  "spec_split_combined (take 5 (frame ''42 SET_REPLY x 5''))
     = Ret (take 5 (frame ''42 SET_REPLY x 5''), [])"
  by (simp add: spec_split_combined_def extract_frame_def frame_def be16_def)

lemma partial_reply_bytes:
  "take 5 (frame ''42 SET_REPLY x 5'') \<noteq> []"
  "drop 5 (frame ''42 SET_REPLY x 5'') \<noteq> []"
  "drop 5 (frame ''42 SET_REPLY x 5'') = ''SET_REPLY x 5''"
  "drop 2 (take 5 (frame ''42 SET_REPLY x 5'')) = ''42 ''"
  by (simp_all add: frame_def be16_def)

lemma drain_partial_tail_run:
  "leftovers spec_ctrl
     (fresh_client [frame ''0 TRAP a b'' @ take 5 (frame ''42 SET_REPLY x 5''),
                    drop 5 (frame ''42 SET_REPLY x 5'')] PeerOpen []) MSG_DONTWAIT
   = Some (Inr True,
           \<lparr>sock = Some (fresh_socket [''SET_REPLY x 5''] PeerOpen []),
            out = [GotMessage (Some ''0 TRAP a b''), GotMessage (Some ''42 '')]\<rparr>)"
  by (simp add: fresh_client_def fresh_socket_def leftovers_def recv_def leftovers_loop.simps
      spec_ctrl_simps split_trap_then_partial split_partial partial_reply_bytes)

text \<open>
  C5 as stated does not hold. The drain reads a notification followed by the first five
  bytes of the reply. Those five bytes are taken off the socket, printed as a message of
  their own and kept nowhere: the socket holds only the rest of the reply, the call
  never gets its reply, while the same byte stream cut at the frame boundary yields it.
\<close>

theorem leftovers_partial_tail_counterexample:
  "leftovers spec_ctrl
     (fresh_client [frame ''0 TRAP a b'' @ take 5 (frame ''42 SET_REPLY x 5''),
                    drop 5 (frame ''42 SET_REPLY x 5'')] PeerOpen []) MSG_DONTWAIT
   = Some (Inr True,
           \<lparr>sock = Some (fresh_socket [''SET_REPLY x 5''] PeerOpen []),
            out = [GotMessage (Some ''0 TRAP a b''), GotMessage (Some ''42 '')]\<rparr>)
   \<and> send_command spec_ctrl 42 ''x'' (Some ''5'')
     (fresh_client [frame ''0 TRAP a b'' @ take 5 (frame ''42 SET_REPLY x 5''),
                    drop 5 (frame ''42 SET_REPLY x 5'')] PeerOpen [])
   = None
   \<and> send_command spec_ctrl 42 ''x'' (Some ''5'')
     (fresh_client [frame ''0 TRAP a b'', frame ''42 SET_REPLY x 5''] PeerOpen [])
   = Some (Inr (Some ''42 SET_REPLY x 5'', True, Some ''5''),
           \<lparr>sock = Some \<lparr>inq = [], peer = PeerOpen, wr = [],
                          sent = frame ''42 SET x 5'', closed = False\<rparr>,
            out = [SendingCommand ''x'', GotMessage (Some ''0 TRAP a b'')]\<rparr>)"
proof -
  have s3: "spec_split_combined (frame ''0 TRAP a b'') = Ret (frame ''0 TRAP a b'', [])"
    using spec_split_combined_frame [of "''0 TRAP a b''" "[]"] by simp
  note a = drain_partial_tail_run
  have b: "send_command spec_ctrl 42 ''x'' (Some ''5'')
     (fresh_client [frame ''0 TRAP a b'' @ take 5 (frame ''42 SET_REPLY x 5''),
                    drop 5 (frame ''42 SET_REPLY x 5'')] PeerOpen [])
   = None"
    using sk_partial_tail
    by (simp add: run_simps split_trap_then_partial split_partial partial_reply_bytes)
  have c: "send_command spec_ctrl 42 ''x'' (Some ''5'')
     (fresh_client [frame ''0 TRAP a b'', frame ''42 SET_REPLY x 5''] PeerOpen [])
   = Some (Inr (Some ''42 SET_REPLY x 5'', True, Some ''5''),
           \<lparr>sock = Some \<lparr>inq = [], peer = PeerOpen, wr = [],
                          sent = frame ''42 SET x 5'', closed = False\<rparr>,
            out = [SendingCommand ''x'', GotMessage (Some ''0 TRAP a b'')]\<rparr>)"
    by (simp add: run_simps s3 sk_reply_42_5)
  from a b c show ?thesis by blast
qed

text \<open>
  C6, at the failing input. The kernel takes three bytes of the twelve-byte command in
  the one \<open>send\<close> call. The count that \<open>send\<close> returns is dropped (line 27), nothing
  more is written, and the call goes on to read and returns a reply as after a complete
  write.
\<close>

theorem send_command_short_write:
  "send_command spec_ctrl 42 ''x'' (Some ''5'')
     (fresh_client [[], frame ''42 SET_REPLY x 5''] PeerOpen [3])
   = Some (Inr (Some ''42 SET_REPLY x 5'', True, Some ''5''),
           \<lparr>sock = Some \<lparr>inq = [], peer = PeerOpen, wr = [],
                          sent = take 3 (frame ''42 SET x 5''), closed = False\<rparr>,
            out = [SendingCommand ''x'']\<rparr>)
   \<and> take 3 (frame ''42 SET x 5'') \<noteq> frame ''42 SET x 5''"
proof
  show "send_command spec_ctrl 42 ''x'' (Some ''5'')
     (fresh_client [[], frame ''42 SET_REPLY x 5''] PeerOpen [3])
   = Some (Inr (Some ''42 SET_REPLY x 5'', True, Some ''5''),
           \<lparr>sock = Some \<lparr>inq = [], peer = PeerOpen, wr = [],
                          sent = take 3 (frame ''42 SET x 5''), closed = False\<rparr>,
            out = [SendingCommand ''x'']\<rparr>)"
    by (simp add: run_simps sk_reply_42_5)
  have "length (take 3 (frame ''42 SET x 5'')) \<noteq> length (frame ''42 SET x 5'')"
    by (simp add: length_frame)
  then show "take 3 (frame ''42 SET x 5'') \<noteq> frame ''42 SET x 5''"
    by metis
qed

section \<open>What the receive path does\<close>

text \<open>
  C1, as amended. The receive loop keeps reading from the transport, passing over the
  moments at which nothing has arrived and over every read in which \<open>skip_traps\<close>
  finds no message (notifications only), until a read in which \<open>skip_traps\<close> finds a
  message. That message ends the loop and is the reply, whatever transaction id it
  carries: the loop does not know the id of the command.
\<close>

theorem recv_loop_first_message:
  assumes "\<not> closed s" and "inq s = ds @ d # q"
    and "\<forall>x\<in>set ds. x = [] \<or> (length x \<le> 4096 \<and> skip_traps K x = Ret None)"
    and "d \<noteq> []" and "length d \<le> 4096"
    and "skip_traps K d = Ret (Some m)" and "parse K m = Ret x"
  shows "recv_loop K s = Some (Inr m, s\<lparr>inq := q\<rparr>)"
  using assms by (rule recv_loop_run)

theorem recv_loop_first_message_witness:
  "recv_loop spec_ctrl
     (fresh_socket [[], frame ''0 TRAP a b'', frame ''7 SET_REPLY x 5''] PeerOpen [])
   = Some (Inr (frame ''7 SET_REPLY x 5''), fresh_socket [] PeerOpen [])"
proof -
  have "recv_loop spec_ctrl
     (fresh_socket [[], frame ''0 TRAP a b'', frame ''7 SET_REPLY x 5''] PeerOpen [])
   = Some (Inr (frame ''7 SET_REPLY x 5''),
       (fresh_socket [[], frame ''0 TRAP a b'', frame ''7 SET_REPLY x 5''] PeerOpen [])
         \<lparr>inq := []\<rparr>)"
    by (rule recv_loop_first_message
        [where ds = "[[], frame ''0 TRAP a b'']" and d = "frame ''7 SET_REPLY x 5''"
           and x = "(Some ''7'', Some ''x'', Some ''5'')"])
      (simp_all add: fresh_socket_def spec_ctrl_simps sk_trap sk_reply_7)
  then show ?thesis by (simp add: fresh_socket_def)
qed

text \<open>
  C2, as amended. \<open>send_command\<close> itself raises nothing when the reply differs from
  what was sent. Once the loop has a reply, the call returns the payload of the reply
  together with whatever tuple the inherited \<open>verify\<close> returns for the reply, the id,
  the variable and the value; it fails at this step only if \<open>verify\<close> itself raises.
\<close>

theorem send_command_returns_verdict:
  assumes "leftovers K (c\<lparr>out := out c @ [SendingCommand var]\<rparr>) MSG_DONTWAIT = Some (Inr b, c1)"
    and "cmd K rnd var value = Ret (r, cm)"
    and "sock c1 = Some s1" and "send cm s1 = (Inr n, s2)"
    and "recv_loop K s2 = Some (Inr ret, s3)"
    and "rem_header K ret = Ret h"
  shows "(\<forall>t. verify K ret r var value = Ret t
            \<longrightarrow> send_command K rnd var value c = Some (Inr (h, t), c1\<lparr>sock := Some s3\<rparr>))
       \<and> (verify K ret r var value = Raise
            \<longrightarrow> send_command K rnd var value c = Some (Inl CtrlError, c1\<lparr>sock := Some s3\<rparr>))"
  using assms by (simp add: send_command_def)

theorem send_command_returns_verdict_witness:
  "verify spec_ctrl (frame ''42 SET_REPLY x 6'') 42 ''x'' (Some ''5'') = Ret (False, Some ''6'')
   \<and> send_command spec_ctrl 42 ''x'' (Some ''5'')
        (fresh_client [[], frame ''42 SET_REPLY x 6''] PeerOpen [])
      = Some (Inr (Some ''42 SET_REPLY x 6'', False, Some ''6''),
           \<lparr>sock = Some \<lparr>inq = [], peer = PeerOpen, wr = [],
                          sent = frame ''42 SET x 5'', closed = False\<rparr>,
            out = [SendingCommand ''x'']\<rparr>)"
proof -
  let ?c = "fresh_client [[], frame ''42 SET_REPLY x 6''] PeerOpen []"
  let ?c1 = "\<lparr>sock = Some (fresh_socket [frame ''42 SET_REPLY x 6''] PeerOpen []),
             out = [SendingCommand ''x'']\<rparr> :: (bool \<times> string option) client"
  let ?s2 = "\<lparr>inq = [frame ''42 SET_REPLY x 6''], peer = PeerOpen, wr = [],
              sent = frame ''42 SET x 5'', closed = False\<rparr>"
  have 1: "leftovers spec_ctrl (?c\<lparr>out := out ?c @ [SendingCommand ''x'']\<rparr>) MSG_DONTWAIT
      = Some (Inr False, ?c1)"
    by (simp add: fresh_client_def fresh_socket_def leftovers_def recv_def)
  have 2: "cmd spec_ctrl 42 ''x'' (Some ''5'') = Ret (42, frame ''42 SET x 5'')"
    by (simp add: spec_ctrl_simps)
  have 3: "sock ?c1 = Some (fresh_socket [frame ''42 SET_REPLY x 6''] PeerOpen [])"
    by simp
  have 4: "send (frame ''42 SET x 5'') (fresh_socket [frame ''42 SET_REPLY x 6''] PeerOpen [])
      = (Inr 12, ?s2)"
    by (simp add: send_def fresh_socket_def length_frame)
  have 5: "recv_loop spec_ctrl ?s2 = Some (Inr (frame ''42 SET_REPLY x 6''), ?s2\<lparr>inq := []\<rparr>)"
    by (simp add: recv_loop.simps recv_def spec_ctrl_simps sk_reply_42_6)
  have 6: "rem_header spec_ctrl (frame ''42 SET_REPLY x 6'') = Ret (Some ''42 SET_REPLY x 6'')"
    by (simp add: spec_ctrl_simps)
  have 7: "verify spec_ctrl (frame ''42 SET_REPLY x 6'') 42 ''x'' (Some ''5'')
      = Ret (False, Some ''6'')"
    by (simp add: spec_ctrl_simps)
  from send_command_returns_verdict [OF 1 2 3 4 5 6] 7 show ?thesis
    by simp
qed

text \<open>
  C4, as amended. The receive path of \<open>send_command\<close> keeps no bytes from one socket
  read to the next. Each read is given to \<open>skip_traps\<close> on its own: if it finds no
  message in the read, the read is dropped and the loop goes on as if it had never
  arrived; if it finds a message there, that message is the reply. So a reply whose
  bytes arrive in one read is decoded from that read, and nothing is put together across
  reads.
\<close>

theorem recv_loop_no_buffer:
  assumes "\<not> closed s" and "inq s = d # q" and "d \<noteq> []" and "length d \<le> 4096"
  shows "(skip_traps K d = Ret None \<longrightarrow> recv_loop K s = recv_loop K (s\<lparr>inq := q\<rparr>))
       \<and> (\<forall>m x. skip_traps K d = Ret (Some m) \<and> parse K m = Ret x
             \<longrightarrow> recv_loop K s = Some (Inr m, s\<lparr>inq := q\<rparr>))"
proof -
  from assms have "recv 4096 Blocking s = Some (Inr d, s\<lparr>inq := q\<rparr>)"
    by (simp add: recv_chunk)
  then show ?thesis
    by (auto simp: recv_loop_skip recv_loop_pick)
qed

theorem recv_loop_no_buffer_witness:
  "recv_loop spec_ctrl
     (fresh_socket [take 5 (frame ''42 SET_REPLY x 5''), drop 5 (frame ''42 SET_REPLY x 5'')]
        PeerOpen [])
   = recv_loop spec_ctrl (fresh_socket [drop 5 (frame ''42 SET_REPLY x 5'')] PeerOpen [])
   \<and> recv_loop spec_ctrl (fresh_socket [frame ''42 SET_REPLY x 5''] PeerOpen [])
   = Some (Inr (frame ''42 SET_REPLY x 5''), fresh_socket [] PeerOpen [])"
proof -
  have h: "take 5 (frame ''42 SET_REPLY x 5'') \<noteq> []"
    "length (take 5 (frame ''42 SET_REPLY x 5'')) \<le> 4096"
    by (simp_all add: frame_def be16_def)
  have p: "parse spec_ctrl (frame ''42 SET_REPLY x 5'') = Ret (Some ''42'', Some ''x'', Some ''5'')"
    by (simp add: spec_ctrl_simps)
  have sk: "skip_traps spec_ctrl (take 5 (frame ''42 SET_REPLY x 5'')) = Ret None"
    "skip_traps spec_ctrl (frame ''42 SET_REPLY x 5'') = Ret (Some (frame ''42 SET_REPLY x 5''))"
    by (simp_all add: spec_ctrl_def sk_partial_head sk_reply_42_5)
  from recv_loop_no_buffer
      [where s = "fresh_socket [take 5 (frame ''42 SET_REPLY x 5''),
                                drop 5 (frame ''42 SET_REPLY x 5'')] PeerOpen []"
         and d = "take 5 (frame ''42 SET_REPLY x 5'')"
         and q = "[drop 5 (frame ''42 SET_REPLY x 5'')]" and K = spec_ctrl]
    recv_loop_no_buffer
      [where s = "fresh_socket [frame ''42 SET_REPLY x 5''] PeerOpen []"
         and d = "frame ''42 SET_REPLY x 5''" and q = "[]" and K = spec_ctrl]
    h p sk
  show ?thesis
    by (simp add: fresh_socket_def frame_nonempty length_frame)
qed

section \<open>What the drain does\<close>

lemma leftovers_sock:
  assumes "sock c = Some s" and "recv 1024 fl s = Some (x, s')"
    and "leftovers K c fl = Some (r, c')"
  shows "sock c' = Some s'"
proof (cases x)
  case (Inl e)
  with assms show ?thesis by (auto simp: leftovers_def split: if_splits)
next
  case (Inr data)
  with assms show ?thesis
    by (auto simp: leftovers_def split: if_splits option.splits sum.splits)
qed


section \<open>The outcome of the drain at two sessions\<close>

lemma drain_two_traps:
  "leftovers spec_ctrl (fresh_client [frame ''0 TRAP a b'' @ frame ''0 TRAP c d''] PeerOpen [])
     MSG_DONTWAIT
   = Some (Inr True, \<lparr>sock = Some (fresh_socket [] PeerOpen []),
        out = [GotMessage (Some ''0 TRAP a b''), GotMessage (Some ''0 TRAP c d'')]\<rparr>)"
proof -
  have a: "spec_split_combined (frame ''0 TRAP a b'' @ frame ''0 TRAP c d'')
      = Ret (frame ''0 TRAP a b'', frame ''0 TRAP c d'')"
    by (simp add: spec_split_combined_frame)
  have b: "spec_split_combined (frame ''0 TRAP c d'') = Ret (frame ''0 TRAP c d'', [])"
    using spec_split_combined_frame [of "''0 TRAP c d''" "[]"] by simp
  show ?thesis
    by (simp add: fresh_client_def fresh_socket_def leftovers_def recv_def leftovers_loop.simps
        spec_ctrl_simps a b)
qed

section \<open>Provisioning OsmoHLR: the second command\<close>



section \<open>A provisioning run with an error reply\<close>











section \<open>The drain prints the messages of the buffer\<close>

lemma leftovers_loop_messages:
  assumes prog: "\<forall>b. b \<noteq> [] \<longrightarrow> (\<exists>h t. split_combined K b = Ret (h, t) \<and> length t < length b)"
    and rh: "\<forall>h. rem_header K h \<noteq> Raise"
  shows "b \<noteq> [] \<Longrightarrow> length b \<le> n
    \<Longrightarrow> leftovers_loop K b log = Some (Inr (), log @ map GotMessage (messages K n b))"
proof (induction n arbitrary: b log)
  case 0
  then show ?case by simp
next
  case (Suc n)
  from prog Suc.prems(1) obtain h t where
    sp: "split_combined K b = Ret (h, t)" and lt: "length t < length b" by blast
  from rh obtain m where m: "rem_header K h = Ret m"
    by (cases "rem_header K h") auto
  show ?case
  proof (cases "t = []")
    case True
    with sp m show ?thesis
      by (subst leftovers_loop.simps) simp
  next
    case False
    from lt Suc.prems(2) have "length t \<le> n" by simp
    from Suc.IH [OF False this, of "log @ [GotMessage m]"] sp m False
    show ?thesis
      by (subst leftovers_loop.simps) simp
  qed
qed

lemma leftovers_prints_messages:
  assumes "sock c = Some s" and "recv 1024 fl s = Some (Inr data, s')" and "data \<noteq> []"
    and "\<forall>b. b \<noteq> [] \<longrightarrow> (\<exists>h t. split_combined K b = Ret (h, t) \<and> length t < length b)"
    and "\<forall>h. rem_header K h \<noteq> Raise"
  shows "leftovers K c fl =
     Some (Inr True, c\<lparr>sock := Some s', out := out c @ map GotMessage (messages K (length data) data)\<rparr>)"
  using leftovers_loop_messages [OF assms(4,5) assms(3), of "length data" "out c"] assms(1,2,3)
  by (simp add: leftovers_on_data)

lemma spec_split_combined_progress:
  "b \<noteq> [] \<Longrightarrow> \<exists>h t. spec_split_combined b = Ret (h, t) \<and> length t < length b"
  by (auto simp: spec_split_combined_def extract_frame_def Let_def
      split: option.splits list.splits if_splits)

lemma spec_ctrl_progress:
  "\<forall>b. b \<noteq> [] \<longrightarrow>
     (\<exists>h t. split_combined spec_ctrl b = Ret (h, t) \<and> length t < length b)"
  "\<forall>h. rem_header spec_ctrl h \<noteq> Raise"
  using spec_split_combined_progress by (simp_all add: spec_ctrl_def spec_rem_header_def)

lemma spec_messages_frames:
  "ps \<noteq> [] \<Longrightarrow> \<forall>p\<in>set ps. length p < 65536 \<Longrightarrow> length ps \<le> n
     \<Longrightarrow> messages spec_ctrl n (concat (map frame ps)) = map Some ps"
proof (induction ps arbitrary: n)
  case Nil
  then show ?case by simp
next
  case (Cons p ps)
  then obtain k where n: "n = Suc k" and k: "length ps \<le> k"
    by (cases n) auto
  from Cons.prems have "length p < 65536" by simp
  then have sp: "spec_split_combined (frame p @ concat (map frame ps))
      = Ret (frame p, concat (map frame ps))"
    by (rule spec_split_combined_frame)
  show ?case
  proof (cases "ps = []")
    case True
    with sp n show ?thesis
      by (simp add: spec_ctrl_def spec_rem_header_def drop2_frame)
  next
    case False
    from Cons.prems have "\<forall>p\<in>set ps. length p < 65536" by simp
    from Cons.IH [OF False this k] sp n False show ?thesis
      by (simp add: spec_ctrl_def spec_rem_header_def drop2_frame frame_nonempty)
  qed
qed

lemma spec_helpers_progress:
  assumes "split_combined K = spec_split_combined" and "rem_header K = spec_rem_header"
  shows "\<forall>b. b \<noteq> [] \<longrightarrow> (\<exists>h t. split_combined K b = Ret (h, t) \<and> length t < length b)"
    and "\<forall>h. rem_header K h \<noteq> Raise"
  using spec_split_combined_progress assms by (simp_all add: spec_rem_header_def)

lemma messages_frames_tail:
  assumes K: "split_combined K = spec_split_combined" "rem_header K = spec_rem_header"
    and rest: "extract_frame rest = None"
  shows "ps \<noteq> [] \<or> rest \<noteq> [] \<Longrightarrow> \<forall>p\<in>set ps. length p < 65536 \<Longrightarrow> length ps < n
     \<Longrightarrow> messages K n (concat (map frame ps) @ rest)
         = map Some ps @ (if rest = [] then [] else [Some (drop 2 rest)])"
proof (induction ps arbitrary: n)
  case Nil
  then obtain k where n: "n = Suc k" by (cases n) auto
  from Nil have "rest \<noteq> []" by simp
  moreover from rest have "spec_split_combined rest = Ret (rest, [])"
    by (simp add: spec_split_combined_def)
  ultimately show ?case using n K
    by (simp add: spec_rem_header_def)
next
  case (Cons p ps)
  then obtain k where n: "n = Suc k" and k: "length ps < k"
    by (cases n) auto
  from Cons.prems have "length p < 65536" by simp
  then have sp: "spec_split_combined (frame p @ concat (map frame ps) @ rest)
      = Ret (frame p, concat (map frame ps) @ rest)"
    by (rule spec_split_combined_frame)
  show ?case
  proof (cases "ps = [] \<and> rest = []")
    case True
    with sp n K show ?thesis
      by (simp add: spec_rem_header_def drop2_frame)
  next
    case False
    then have ne: "ps \<noteq> [] \<or> rest \<noteq> []" by blast
    from Cons.prems have "\<forall>p\<in>set ps. length p < 65536" by simp
    from Cons.IH [OF ne this k] sp n False K show ?thesis
      by (auto simp: spec_rem_header_def drop2_frame frame_nonempty)
  qed
qed

lemma leftovers_prints_frames:
  assumes "sock c = Some s" and K: "split_combined K = spec_split_combined"
      "rem_header K = spec_rem_header"
    and rd: "recv 1024 fl s = Some (Inr (concat (map frame ps) @ rest), s')"
    and ne: "ps \<noteq> [] \<or> rest \<noteq> []" and rest: "extract_frame rest = None"
    and short: "\<forall>p\<in>set ps. length p < 65536"
  shows "leftovers K c fl =
     Some (Inr True, c\<lparr>sock := Some s',
        out := out c @ map (\<lambda>p. GotMessage (Some p)) ps
                 @ (if rest = [] then [] else [GotMessage (Some (drop 2 rest))])\<rparr>)"
proof -
  let ?data = "concat (map frame ps) @ rest"
  from ne have data: "?data \<noteq> []"
    by (auto simp: frame_nonempty)
  have "2 * length ps \<le> length (concat (map frame ps))"
    by (induction ps) (simp_all add: length_frame)
  with ne have "length ps < length ?data"
    by (cases ps) auto
  from messages_frames_tail [OF K rest ne short this]
    leftovers_prints_messages [OF assms(1) rd data spec_helpers_progress [OF K]]
  show ?thesis by (simp add: comp_def)
qed

text \<open>
  C5, as amended. Every invocation of the drain before a command, on a connected client,
  makes one read of at most 1024 bytes under \<open>MSG_DONTWAIT\<close>, which returns at once.
  If the read raises a socket error or gives no bytes, the drain returns \<open>False\<close> and
  prints nothing. If it gives bytes and the helpers return and make progress, the drain
  prints one message for every piece that \<open>split_combined\<close> peels off, up to an
  empty remainder, and returns \<open>True\<close>; with the codec of the specification these are
  the complete frames in order and then the partial tail, printed as a message of its
  own. In every case the client afterwards is the client before, with the socket as the
  read has left it and the printed lines added: the bytes read are off the socket and
  kept nowhere, so a partial frame at their end is not preserved for the next read.
\<close>

theorem leftovers_keeps_nothing:
  assumes "sock c = Some s"
  shows "recv 1024 MSG_DONTWAIT s \<noteq> None
    \<and> (\<forall>s'. recv 1024 MSG_DONTWAIT s = Some (Inl SocketError, s')
              \<or> recv 1024 MSG_DONTWAIT s = Some (Inr [], s')
          \<longrightarrow> leftovers K c MSG_DONTWAIT = Some (Inr False, c\<lparr>sock := Some s'\<rparr>))
    \<and> (\<forall>data s'. recv 1024 MSG_DONTWAIT s = Some (Inr data, s') \<and> data \<noteq> []
          \<and> (\<forall>b. b \<noteq> [] \<longrightarrow> (\<exists>h t. split_combined K b = Ret (h, t) \<and> length t < length b))
          \<and> (\<forall>h. rem_header K h \<noteq> Raise)
          \<longrightarrow> leftovers K c MSG_DONTWAIT =
                Some (Inr True, c\<lparr>sock := Some s',
                   out := out c @ map GotMessage (messages K (length data) data)\<rparr>))
    \<and> (\<forall>ps rest s'. split_combined K = spec_split_combined \<and> rem_header K = spec_rem_header
          \<and> recv 1024 MSG_DONTWAIT s = Some (Inr (concat (map frame ps) @ rest), s')
          \<and> rest \<noteq> [] \<and> extract_frame rest = None \<and> (\<forall>p\<in>set ps. length p < 65536)
          \<longrightarrow> leftovers K c MSG_DONTWAIT =
                Some (Inr True, c\<lparr>sock := Some s',
                   out := out c @ map (\<lambda>p. GotMessage (Some p)) ps
                            @ [GotMessage (Some (drop 2 rest))]\<rparr>))
    \<and> (\<forall>r c'. leftovers K c MSG_DONTWAIT = Some (r, c')
          \<longrightarrow> (\<exists>x s'. recv 1024 MSG_DONTWAIT s = Some (x, s') \<and> sock c' = Some s'))
    \<and> (\<forall>d q. \<not> closed s \<and> inq s = d # q \<and> d \<noteq> []
          \<longrightarrow> recv 1024 MSG_DONTWAIT s =
                Some (Inr (take 1024 d),
                      s\<lparr>inq := (if length d \<le> 1024 then q else drop 1024 d # q)\<rparr>))"
proof (intro conjI allI impI)
  show "recv 1024 MSG_DONTWAIT s \<noteq> None" by (rule recv_dontwait)
next
  fix s'
  assume "recv 1024 MSG_DONTWAIT s = Some (Inl SocketError, s')
      \<or> recv 1024 MSG_DONTWAIT s = Some (Inr [], s')"
  then show "leftovers K c MSG_DONTWAIT = Some (Inr False, c\<lparr>sock := Some s'\<rparr>)"
    using leftovers_on_error [OF assms] leftovers_on_empty [OF assms] by blast
next
  fix data s'
  assume "recv 1024 MSG_DONTWAIT s = Some (Inr data, s') \<and> data \<noteq> []
          \<and> (\<forall>b. b \<noteq> [] \<longrightarrow> (\<exists>h t. split_combined K b = Ret (h, t) \<and> length t < length b))
          \<and> (\<forall>h. rem_header K h \<noteq> Raise)"
  then show "leftovers K c MSG_DONTWAIT =
                Some (Inr True, c\<lparr>sock := Some s',
                   out := out c @ map GotMessage (messages K (length data) data)\<rparr>)"
    using leftovers_prints_messages [OF assms] by blast
next
  fix ps rest s'
  assume h: "split_combined K = spec_split_combined \<and> rem_header K = spec_rem_header
          \<and> recv 1024 MSG_DONTWAIT s = Some (Inr (concat (map frame ps) @ rest), s')
          \<and> rest \<noteq> [] \<and> extract_frame rest = None \<and> (\<forall>p\<in>set ps. length p < 65536)"
  then have "ps \<noteq> [] \<or> rest \<noteq> []" by blast
  from leftovers_prints_frames [OF assms _ _ _ this, of K MSG_DONTWAIT s'] h
  show "leftovers K c MSG_DONTWAIT =
                Some (Inr True, c\<lparr>sock := Some s',
                   out := out c @ map (\<lambda>p. GotMessage (Some p)) ps
                            @ [GotMessage (Some (drop 2 rest))]\<rparr>)"
    by simp
next
  fix r c'
  assume l: "leftovers K c MSG_DONTWAIT = Some (r, c')"
  obtain x s' where rd: "recv 1024 MSG_DONTWAIT s = Some (x, s')"
    using recv_dontwait [of 1024 s] by (cases "recv 1024 MSG_DONTWAIT s") auto
  from leftovers_sock [OF assms rd l] rd
  show "\<exists>x s'. recv 1024 MSG_DONTWAIT s = Some (x, s') \<and> sock c' = Some s'" by blast
next
  fix d q
  assume "\<not> closed s \<and> inq s = d # q \<and> d \<noteq> []"
  then show "recv 1024 MSG_DONTWAIT s =
                Some (Inr (take 1024 d),
                      s\<lparr>inq := (if length d \<le> 1024 then q else drop 1024 d # q)\<rparr>)"
    by (simp add: recv_def)
qed

theorem leftovers_keeps_nothing_witness:
  "leftovers spec_ctrl
     (fresh_client [frame ''0 TRAP a b'' @ take 5 (frame ''42 SET_REPLY x 5''),
                    drop 5 (frame ''42 SET_REPLY x 5'')] PeerOpen []) MSG_DONTWAIT
   = Some (Inr True,
           \<lparr>sock = Some (fresh_socket [''SET_REPLY x 5''] PeerOpen []),
            out = [GotMessage (Some ''0 TRAP a b''), GotMessage (Some ''42 '')]\<rparr>)
   \<and> leftovers spec_ctrl (fresh_client [[]] PeerOpen []) MSG_DONTWAIT
       = Some (Inr False, \<lparr>sock = Some (fresh_socket [] PeerOpen []), out = []\<rparr>)"
proof -
  let ?d = "frame ''0 TRAP a b'' @ take 5 (frame ''42 SET_REPLY x 5'')"
  let ?q = "[drop 5 (frame ''42 SET_REPLY x 5'')]"
  let ?ca = "fresh_client (?d # ?q) PeerOpen []"
  let ?sa = "fresh_socket (?d # ?q) PeerOpen []"
  let ?cb = "fresh_client [[]] PeerOpen []"
  let ?sb = "fresh_socket [[]] PeerOpen []"
  have sa: "sock ?ca = Some ?sa" and sb: "sock ?cb = Some ?sb"
    by (simp_all add: fresh_client_def)
  note A = leftovers_keeps_nothing [OF sa, where K = spec_ctrl]
  note B = leftovers_keeps_nothing [OF sb, where K = spec_ctrl]
  have shape: "\<not> closed ?sa \<and> inq ?sa = ?d # ?q \<and> ?d \<noteq> []"
    by (simp add: fresh_socket_def frame_nonempty)
  note A6 = A [THEN conjunct2, THEN conjunct2, THEN conjunct2, THEN conjunct2, THEN conjunct2]
  note A4 = A [THEN conjunct2, THEN conjunct2, THEN conjunct2, THEN conjunct1]
  note A3 = A [THEN conjunct2, THEN conjunct2, THEN conjunct1]
  note B2 = B [THEN conjunct2, THEN conjunct1]
  have rd: "recv 1024 MSG_DONTWAIT ?sa =
      Some (Inr (take 1024 ?d), ?sa\<lparr>inq := (if length ?d \<le> 1024 then ?q else drop 1024 ?d # ?q)\<rparr>)"
    by (rule A6 [rule_format, OF shape])
  have len: "length ?d = 17"
    by (simp add: length_frame)
  from rd len have rd': "recv 1024 MSG_DONTWAIT ?sa = Some (Inr ?d, ?sa\<lparr>inq := ?q\<rparr>)"
    by simp
  have hyp: "split_combined spec_ctrl = spec_split_combined \<and> rem_header spec_ctrl = spec_rem_header
      \<and> recv 1024 MSG_DONTWAIT ?sa
          = Some (Inr (concat (map frame [''0 TRAP a b'']) @ take 5 (frame ''42 SET_REPLY x 5'')),
                  ?sa\<lparr>inq := ?q\<rparr>)
      \<and> take 5 (frame ''42 SET_REPLY x 5'') \<noteq> []
      \<and> extract_frame (take 5 (frame ''42 SET_REPLY x 5'')) = None
      \<and> (\<forall>p\<in>set [''0 TRAP a b'']. length p < 65536)"
    using rd' by (simp add: spec_ctrl_def extract_frame_def frame_def be16_def)
  have run: "leftovers spec_ctrl ?ca MSG_DONTWAIT =
      Some (Inr True, ?ca\<lparr>sock := Some (?sa\<lparr>inq := ?q\<rparr>),
         out := out ?ca @ map (\<lambda>p. GotMessage (Some p)) [''0 TRAP a b'']
                  @ [GotMessage (Some (drop 2 (take 5 (frame ''42 SET_REPLY x 5''))))]\<rparr>)"
    by (rule A4 [rule_format, OF hyp])
  have hyp2: "recv 1024 MSG_DONTWAIT ?sa = Some (Inr ?d, ?sa\<lparr>inq := ?q\<rparr>) \<and> ?d \<noteq> []
      \<and> (\<forall>b. b \<noteq> [] \<longrightarrow>
            (\<exists>h t. split_combined spec_ctrl b = Ret (h, t) \<and> length t < length b))
      \<and> (\<forall>h. rem_header spec_ctrl h \<noteq> Raise)"
    using rd' shape spec_ctrl_progress by (intro conjI) simp_all
  have run2: "leftovers spec_ctrl ?ca MSG_DONTWAIT =
      Some (Inr True, ?ca\<lparr>sock := Some (?sa\<lparr>inq := ?q\<rparr>),
         out := out ?ca @ map GotMessage (messages spec_ctrl (length ?d) ?d)\<rparr>)"
    by (rule A3 [rule_format, OF hyp2])
  have rb: "recv 1024 MSG_DONTWAIT ?sb = Some (Inl SocketError, fresh_socket [] PeerOpen [])"
    by (simp add: recv_def fresh_socket_def)
  have idle: "leftovers spec_ctrl ?cb MSG_DONTWAIT =
      Some (Inr False, ?cb\<lparr>sock := Some (fresh_socket [] PeerOpen [])\<rparr>)"
    by (rule B2 [rule_format, OF disjI1, OF rb])
  note A5 = A [THEN conjunct2, THEN conjunct2, THEN conjunct2, THEN conjunct2, THEN conjunct1]
  from A5 [rule_format, OF run] rd' have after: "sock (?ca\<lparr>sock := Some (?sa\<lparr>inq := ?q\<rparr>),
         out := out ?ca @ map (\<lambda>p. GotMessage (Some p)) [''0 TRAP a b'']
                  @ [GotMessage (Some (drop 2 (take 5 (frame ''42 SET_REPLY x 5''))))]\<rparr>)
      = Some (?sa\<lparr>inq := ?q\<rparr>)"
    by auto
  from run run2 idle after show ?thesis
    by (simp add: fresh_client_def fresh_socket_def partial_reply_bytes)
qed



section \<open>Provisioning OsmoHLR: after the reply to the first command\<close>




section \<open>Provisioning runs\<close>











end
